theory Spec2Isabelle
  imports Complex_Main
begin

section \<open>Python values, errors and builtins\<close>

text \<open>
  The node of \<^verbatim>\<open>ClonePrevention.py\<close> is a MicroPython class \<^verbatim>\<open>GTI_Node\<close>.
  Its unbounded integers are modelled by \<^typ>\<open>int\<close>. Every exception that the source can
  raise outside a \<^verbatim>\<open>try\<close> block is a value \<open>Inl e\<close> of the result; an exception inside a
  \<^verbatim>\<open>try\<close> block is caught where the source catches it.
\<close>

datatype py_error = ZeroDivisionError | KeyError | IndexError | ValueError | ComplexResult

subsection \<open>Floating-point numbers\<close>

text \<open>
  A float is a finite number, one of the two infinities, or not-a-number: \<^verbatim>\<open>float\<close>
  accepts \<^verbatim>\<open>'inf'\<close>, \<^verbatim>\<open>'-inf'\<close> and \<^verbatim>\<open>'nan'\<close>, so all of them reach the node in messages.
  On finite numbers the operations are those of the real numbers: rounding, overflow
  and underflow of a finite result are not modelled, and the two zeros are one value
  (they compare equal, and dividing by either raises). On the other values the
  operations follow IEEE 754: a comparison with \<open>NaN\<close> is false, an operation on \<open>NaN\<close>
  gives \<open>NaN\<close>, and so do \<open>inf - inf\<close>, \<open>0 * inf\<close> and \<open>inf / inf\<close>.
\<close>

datatype pyfloat = Num real | PInf | MInf | NaN

text \<open>\<^verbatim>\<open>a < b\<close>; the source's \<^verbatim>\<open>a > b\<close> is \<open>f_lt b a\<close>.\<close>

fun f_lt :: "pyfloat \<Rightarrow> pyfloat \<Rightarrow> bool" where
  "f_lt (Num a) (Num b) = (a < b)"
| "f_lt (Num a) PInf = True"
| "f_lt MInf (Num b) = True"
| "f_lt MInf PInf = True"
| "f_lt _ _ = False"

text \<open>\<^verbatim>\<open>a <= b\<close>, which the source does not use on floats; it words the specification.\<close>

fun f_le :: "pyfloat \<Rightarrow> pyfloat \<Rightarrow> bool" where
  "f_le (Num a) (Num b) = (a \<le> b)"
| "f_le NaN _ = False"
| "f_le _ NaN = False"
| "f_le MInf _ = True"
| "f_le _ PInf = True"
| "f_le _ _ = False"

text \<open>\<^verbatim>\<open>abs(a)\<close>, \<^verbatim>\<open>a + b\<close>, \<^verbatim>\<open>a - b\<close> and \<^verbatim>\<open>a * b\<close>.\<close>

fun f_abs :: "pyfloat \<Rightarrow> pyfloat" where
  "f_abs (Num a) = Num \<bar>a\<bar>"
| "f_abs PInf = PInf"
| "f_abs MInf = PInf"
| "f_abs NaN = NaN"

fun f_add :: "pyfloat \<Rightarrow> pyfloat \<Rightarrow> pyfloat" where
  "f_add (Num a) (Num b) = Num (a + b)"
| "f_add NaN _ = NaN"
| "f_add _ NaN = NaN"
| "f_add PInf MInf = NaN"
| "f_add MInf PInf = NaN"
| "f_add PInf _ = PInf"
| "f_add _ PInf = PInf"
| "f_add MInf _ = MInf"
| "f_add _ MInf = MInf"

fun f_sub :: "pyfloat \<Rightarrow> pyfloat \<Rightarrow> pyfloat" where
  "f_sub (Num a) (Num b) = Num (a - b)"
| "f_sub NaN _ = NaN"
| "f_sub _ NaN = NaN"
| "f_sub PInf PInf = NaN"
| "f_sub MInf MInf = NaN"
| "f_sub PInf _ = PInf"
| "f_sub _ MInf = PInf"
| "f_sub MInf _ = MInf"
| "f_sub _ PInf = MInf"

fun f_mul :: "pyfloat \<Rightarrow> pyfloat \<Rightarrow> pyfloat" where
  "f_mul (Num a) (Num b) = Num (a * b)"
| "f_mul NaN _ = NaN"
| "f_mul _ NaN = NaN"
| "f_mul (Num a) PInf = (if a = 0 then NaN else if 0 < a then PInf else MInf)"
| "f_mul (Num a) MInf = (if a = 0 then NaN else if 0 < a then MInf else PInf)"
| "f_mul PInf (Num b) = (if b = 0 then NaN else if 0 < b then PInf else MInf)"
| "f_mul MInf (Num b) = (if b = 0 then NaN else if 0 < b then MInf else PInf)"
| "f_mul PInf PInf = PInf"
| "f_mul MInf MInf = PInf"
| "f_mul PInf MInf = MInf"
| "f_mul MInf PInf = MInf"

text \<open>
  \<^verbatim>\<open>a / b\<close> for a divisor that is not zero, and the division itself, which raises on
  zero.
\<close>

fun f_div :: "pyfloat \<Rightarrow> pyfloat \<Rightarrow> pyfloat" where
  "f_div (Num a) (Num b) = Num (a / b)"
| "f_div NaN _ = NaN"
| "f_div _ NaN = NaN"
| "f_div (Num a) _ = Num 0"
| "f_div PInf (Num b) = (if 0 < b then PInf else MInf)"
| "f_div MInf (Num b) = (if 0 < b then MInf else PInf)"
| "f_div _ _ = NaN"

definition py_div :: "pyfloat \<Rightarrow> pyfloat \<Rightarrow> py_error + pyfloat" where
  "py_div a b = (if b = Num 0 then Inl ZeroDivisionError else Inr (f_div a b))"

text \<open>
  \<^verbatim>\<open>a ** b\<close> for a finite exponent: anything to the power zero is one (\<open>NaN\<close> too), zero
  to a negative power raises, a negative base (minus infinity too) with a fractional
  exponent has no real result (a complex number in Python, an error on ports without
  complex numbers); an infinity to a positive power is an infinity, negative only for
  minus infinity and an odd exponent, and to a negative power it is zero.
\<close>

definition py_pow :: "pyfloat \<Rightarrow> real \<Rightarrow> py_error + pyfloat" where
  "py_pow b e =
     (if e = 0 then Inr (Num 1)
      else case b of
        NaN \<Rightarrow> Inr NaN
      | PInf \<Rightarrow> Inr (if 0 < e then PInf else Num 0)
      | MInf \<Rightarrow>
          if e = of_int \<lfloor>e\<rfloor>
          then Inr (if 0 < e then (if odd \<lfloor>e\<rfloor> then MInf else PInf) else Num 0)
          else Inl ComplexResult
      | Num r \<Rightarrow>
          if r = 0 then (if e < 0 then Inl ZeroDivisionError else Inr (Num 0))
          else if r < 0 then
            (if e = of_int \<lfloor>e\<rfloor> then Inr (Num (power_int r \<lfloor>e\<rfloor>)) else Inl ComplexResult)
          else Inr (Num (r powr e)))"

text \<open>\<^verbatim>\<open>1 / math.sqrt(q)\<close>: \<^verbatim>\<open>math.sqrt\<close> raises on a negative number, the division on zero.\<close>

definition inv_sqrt :: "real \<Rightarrow> py_error + real" where
  "inv_sqrt q =
     (if q < 0 then Inl ValueError
      else if q = 0 then Inl ZeroDivisionError
      else Inr (1 / sqrt q))"

text \<open>\<^verbatim>\<open>str.split(':')\<close>: always at least one part.\<close>

fun split_on :: "char \<Rightarrow> string \<Rightarrow> string list" where
  "split_on c [] = [[]]"
| "split_on c (h # t) =
     (if h = c then [] # split_on c t
      else (case split_on c t of
              [] \<Rightarrow> [[h]]
            | w # ws \<Rightarrow> (h # w) # ws))"

text \<open>
  \<^verbatim>\<open>time.ticks_diff\<close> of MicroPython: the signed difference of two tick counts that wrap
  at \<open>2 ^ 30\<close>.
\<close>

definition ticks_diff :: "int \<Rightarrow> int \<Rightarrow> int" where
  "ticks_diff a b = ((a - b + 2 ^ 29) mod 2 ^ 30) - 2 ^ 29"

section \<open>Configuration\<close>

text \<open>
  The source takes its constants from a module \<^verbatim>\<open>config\<close> that is not part of the
  repository's sources, so they are parameters of the model; its numbers are finite.
  The builtins \<^verbatim>\<open>float\<close> and \<^verbatim>\<open>int\<close> on strings are parameters as well (\<open>None\<close> is their
  \<^verbatim>\<open>ValueError\<close>): every theorem holds for whatever they accept, infinities and \<open>NaN\<close>
  included.
\<close>

record node_params =
  param_p :: real
  q_list :: "real list"

record config =
  NETWORK_ID :: string
  REGION_MAP :: "string \<rightharpoonup> string"
  PEERS :: "(string \<times> string) list"
  NODE_CONFIG :: "string \<rightharpoonup> node_params"
  CONVERGENCE_THRESHOLD :: real
  STABLE_EPOCHS_REQUIRED :: int
  EPOCH_INTERVAL_MS :: int
  py_float :: "string \<Rightarrow> pyfloat option"
  py_int :: "string \<Rightarrow> int option"

section \<open>The node\<close>

datatype status = STABLE | DISTURBED

text \<open>One entry of \<^verbatim>\<open>self.state['neighbors']\<close>.\<close>

record neighbor_data =
  code :: pyfloat
  nb_status :: string
  nb_epoch :: int
  last_seen :: int

text \<open>An outbound message, field by field, before it is formatted.\<close>

record wire =
  w_network :: string
  w_name :: string
  w_status :: status
  w_x :: pyfloat
  w_p :: real
  w_q :: real
  w_epoch :: int
  w_counter :: int

text \<open>
  The object: its attributes, the entries of \<^verbatim>\<open>self.state\<close> (prefixed \<open>state_\<close>), and
  what it touches outside itself: the pending inbound messages of the radio
  (\<open>inbox\<close>), the messages handed to the radio (\<open>outbox\<close>), the LED (\<open>led\<close>) and the
  number of blink sequences that \<^verbatim>\<open>trigger_alert\<close> has run (\<open>alerts\<close>). Dictionaries that
  the source iterates over are association lists with distinct keys.
\<close>

record node =
  node_name :: string
  region :: string
  peers :: "(string \<times> string) list"
  current_q_index :: nat
  state_x :: pyfloat
  state_status :: status
  state_neighbors :: "(string \<times> neighbor_data) list"
  state_epoch :: int
  state_a_i :: real
  state_convergence_count :: int
  state_message_counter :: int
  state_previous_neighbors :: "string set"
  code_sequence :: "pyfloat list"
  max_history :: nat
  suspicion_triggered :: bool
  clone_check_log :: "(string \<times> int) \<rightharpoonup> pyfloat"
  led :: bool
  alerts :: nat
  inbox :: "string list"
  outbox :: "(string \<times> wire) list"

subsection \<open>Dictionary operations on association lists\<close>

fun dict_set :: "'k \<Rightarrow> 'v \<Rightarrow> ('k \<times> 'v) list \<Rightarrow> ('k \<times> 'v) list" where
  "dict_set k v [] = [(k, v)]"
| "dict_set k v ((k', v') # kvs) =
     (if k' = k then (k, v) # kvs else (k', v') # dict_set k v kvs)"

definition dict_keys :: "('k \<times> 'v) list \<Rightarrow> 'k set" where
  "dict_keys kvs = set (map fst kvs)"

subsection \<open>Consensus\<close>

definition next_q :: "config \<Rightarrow> node \<Rightarrow> py_error + (node \<times> real \<times> real)" where
  "next_q cfg s =
     (case NODE_CONFIG cfg (node_name s) of
        None \<Rightarrow> Inl KeyError
      | Some np \<Rightarrow>
          if length (q_list np) = 0 then Inl ZeroDivisionError
          else
            let i = (current_q_index s + 1) mod length (q_list np);
                q = q_list np ! i
            in (case inv_sqrt q of
                  Inl e \<Rightarrow> Inl e
                | Inr a \<Rightarrow> Inr (s\<lparr>current_q_index := i\<rparr>, q, a)))"

text \<open>\<^verbatim>\<open>1/x if x > 1 else x\<close>: the divisor is above 1, so the division does not raise.\<close>

definition reciprocal :: "pyfloat \<Rightarrow> pyfloat" where
  "reciprocal v = (if f_lt (Num 1) v then f_div (Num 1) v else v)"

definition valid_neighbor :: "config \<Rightarrow> node \<Rightarrow> string \<times> neighbor_data \<Rightarrow> bool" where
  "valid_neighbor cfg s nd =
     (REGION_MAP cfg (fst nd) = Some (region s) \<and> state_epoch s - nb_epoch (snd nd) \<le> 2)"

text \<open>The loop of \<^verbatim>\<open>calculate_pseudogeometric_mean\<close>, with its two accumulators.\<close>

fun pgm_loop :: "config \<Rightarrow> node \<Rightarrow> (string \<times> neighbor_data) list \<Rightarrow> pyfloat \<times> nat \<Rightarrow> pyfloat \<times> nat" where
  "pgm_loop cfg s [] acc = acc"
| "pgm_loop cfg s (nd # nds) (product, valid_neighbors) =
     (if valid_neighbor cfg s nd
      then pgm_loop cfg s nds (f_mul product (reciprocal (code (snd nd))), valid_neighbors + 1)
      else pgm_loop cfg s nds (product, valid_neighbors))"

definition calculate_pseudogeometric_mean :: "config \<Rightarrow> node \<Rightarrow> py_error + pyfloat" where
  "calculate_pseudogeometric_mean cfg s =
     (let (product, valid_neighbors) = pgm_loop cfg s (state_neighbors s) (Num 1, 0);
          product = (if valid_neighbors = 0 then reciprocal (state_x s) else product)
      in py_pow product (state_a_i s))"

definition handle_disturbance :: "config \<Rightarrow> node \<Rightarrow> py_error + node" where
  "handle_disturbance cfg s =
     (case next_q cfg s of
        Inl e \<Rightarrow> Inl e
      | Inr (s1, q, a) \<Rightarrow>
          let s2 = s1\<lparr>state_a_i := a,
                      state_epoch := state_epoch s1 + 1,
                      state_status := DISTURBED,
                      state_convergence_count := 0\<rparr>
          in (case calculate_pseudogeometric_mean cfg s2 of
                Inl e \<Rightarrow> Inl e
              | Inr mu_i \<Rightarrow>
                 (case py_div (Num 1) mu_i of
                    Inl e \<Rightarrow> Inl e
                  | Inr x_new \<Rightarrow>
                      let x_new = (if f_lt x_new (Num 1.2) then Num 1.2 else x_new)
                      in Inr (s2\<lparr>state_x := x_new\<rparr>))))"

definition converge_state :: "config \<Rightarrow> node \<Rightarrow> py_error + node" where
  "converge_state cfg s =
     (case next_q cfg s of
        Inl e \<Rightarrow> Inl e
      | Inr (s1, q, a) \<Rightarrow>
          let s2 = s1\<lparr>state_a_i := a, state_epoch := state_epoch s1 + 1\<rparr>
          in (case calculate_pseudogeometric_mean cfg s2 of
                Inl e \<Rightarrow> Inl e
              | Inr mu_i \<Rightarrow>
                  let s3 = (if f_lt (state_x s2) (Num 1) \<and>
                               f_lt (f_abs (f_sub mu_i (state_x s2)))
                                 (Num (CONVERGENCE_THRESHOLD cfg))
                            then s2\<lparr>state_convergence_count := state_convergence_count s2 + 1\<rparr>
                            else s2\<lparr>state_convergence_count := 0, state_x := mu_i\<rparr>)
                  in Inr (if state_convergence_count s3 \<ge> STABLE_EPOCHS_REQUIRED cfg
                          then s3\<lparr>state_status := STABLE\<rparr> else s3)))"

subsection \<open>Alerts\<close>

text \<open>
  \<^verbatim>\<open>trigger_alert\<close>: latched by \<^verbatim>\<open>suspicion_triggered\<close>; the first call blinks the LED six
  times and leaves it off.
\<close>

definition trigger_alert :: "node \<Rightarrow> node" where
  "trigger_alert s =
     (if suspicion_triggered s then s
      else s\<lparr>suspicion_triggered := True, led := False, alerts := alerts s + 1\<rparr>)"

subsection \<open>Inbound messages\<close>

text \<open>
  The body of the \<^verbatim>\<open>try\<close> block of \<^verbatim>\<open>process_messages\<close> for one message. The two
  conversions are the only statements that can raise, and they come before every
  assignment. \<open>now\<close> is the reading of \<^verbatim>\<open>time.ticks_ms()\<close>.
\<close>

definition try_message :: "config \<Rightarrow> int \<Rightarrow> string \<Rightarrow> node \<Rightarrow> py_error + node" where
  "try_message cfg now msg s =
     (let parts = split_on CHR '':'' msg in
      if length parts \<ge> 7 \<and> parts ! 0 = NETWORK_ID cfg then
        let neighbor_name = parts ! 1 in
        (case py_float cfg (parts ! 3) of
           None \<Rightarrow> Inl ValueError
         | Some x_val \<Rightarrow>
            (case py_int cfg (parts ! 6) of
               None \<Rightarrow> Inl ValueError
             | Some epoch \<Rightarrow>
                let key = (neighbor_name, epoch);
                    s1 = (case clone_check_log s key of
                            Some logged \<Rightarrow>
                              if f_lt (Num 0.01) (f_abs (f_sub logged x_val))
                              then trigger_alert s else s
                          | None \<Rightarrow>
                              s\<lparr>clone_check_log := (clone_check_log s)(key \<mapsto> x_val)\<rparr>)
                in Inr (if neighbor_name \<in> dict_keys (peers s1)
                        then s1\<lparr>state_neighbors :=
                                   dict_set neighbor_name
                                     \<lparr>code = x_val, nb_status = parts ! 2,
                                      nb_epoch = epoch, last_seen = now\<rparr>
                                     (state_neighbors s1)\<rparr>
                        else s1)))
      else Inr s)"

text \<open>The \<^verbatim>\<open>try\<close> statement: \<^verbatim>\<open>except Exception\<close> prints and goes on.\<close>

definition handle_message :: "config \<Rightarrow> int \<Rightarrow> string \<Rightarrow> node \<Rightarrow> node" where
  "handle_message cfg now msg s =
     (case try_message cfg now msg s of Inl e \<Rightarrow> s | Inr s' \<Rightarrow> s')"

text \<open>
  The \<^verbatim>\<open>while True\<close> loop of \<^verbatim>\<open>process_messages\<close> over the pending messages: it stops
  when \<^verbatim>\<open>recv\<close> has nothing, and also at a message that is empty (\<^verbatim>\<open>not msg\<close>), which it
  has taken from the radio. The result is the node and the messages left pending.
\<close>

fun drain :: "config \<Rightarrow> int \<Rightarrow> string list \<Rightarrow> node \<Rightarrow> node \<times> string list" where
  "drain cfg now [] s = (s, [])"
| "drain cfg now (msg # rest) s =
     (if msg = [] then (s, rest) else drain cfg now rest (handle_message cfg now msg s))"

definition process_messages :: "config \<Rightarrow> int \<Rightarrow> node \<Rightarrow> node" where
  "process_messages cfg now s =
     (let (s', rest) = drain cfg now (inbox s) s in s'\<lparr>inbox := rest\<rparr>)"

subsection \<open>Topology\<close>

definition check_topology_change :: "config \<Rightarrow> int \<Rightarrow> node \<Rightarrow> py_error + (bool \<times> node)" where
  "check_topology_change cfg now s =
     (let s1 = process_messages cfg now s;
          current_neighbors = dict_keys (state_neighbors s1)
      in if current_neighbors \<noteq> state_previous_neighbors s1 then
           let added = current_neighbors - state_previous_neighbors s1;
               removed = state_previous_neighbors s1 - current_neighbors
           in (case (if added \<noteq> {} then handle_disturbance cfg s1 else Inr s1) of
                 Inl e \<Rightarrow> Inl e
               | Inr s2 \<Rightarrow> Inr (True, s2\<lparr>state_previous_neighbors := current_neighbors\<rparr>))
         else Inr (False, s1))"

subsection \<open>Broadcast, history, eviction\<close>

definition broadcast_state :: "config \<Rightarrow> node \<Rightarrow> py_error + node" where
  "broadcast_state cfg s =
     (let s1 = s\<lparr>state_message_counter := state_message_counter s + 1\<rparr> in
      case NODE_CONFIG cfg (node_name s1) of
        None \<Rightarrow> Inl KeyError
      | Some np \<Rightarrow>
          if current_q_index s1 \<ge> length (q_list np) then Inl IndexError
          else
            let msg = \<lparr>w_network = NETWORK_ID cfg, w_name = node_name s1,
                       w_status = state_status s1, w_x = state_x s1,
                       w_p = param_p np, w_q = q_list np ! current_q_index s1,
                       w_epoch = state_epoch s1, w_counter = state_message_counter s1\<rparr>
            in Inr (s1\<lparr>outbox := outbox s1 @ map (\<lambda>pm. (snd pm, msg)) (peers s1)\<rparr>))"

definition update_code_sequence :: "node \<Rightarrow> node" where
  "update_code_sequence s =
     (let cs = (if length (code_sequence s) \<ge> max_history s
                then tl (code_sequence s) else code_sequence s)
      in s\<lparr>code_sequence := cs @ [state_x s]\<rparr>)"

definition cleanup_neighbors :: "config \<Rightarrow> int \<Rightarrow> node \<Rightarrow> node" where
  "cleanup_neighbors cfg now s =
     s\<lparr>state_neighbors :=
         filter (\<lambda>nd. \<not> ticks_diff now (last_seen (snd nd)) > 7 * EPOCH_INTERVAL_MS cfg)
           (state_neighbors s)\<rparr>"

subsection \<open>Statistical outlier detection\<close>

text \<open>The search for the code furthest from the regional mean (first strict maximum).\<close>

fun suspect_loop :: "pyfloat \<Rightarrow> (string \<times> pyfloat) list \<Rightarrow> pyfloat \<times> string option \<Rightarrow> pyfloat \<times> string option" where
  "suspect_loop region_mean [] acc = acc"
| "suspect_loop region_mean ((name, c) # rest) (max_dev, suspected_node) =
     (let d = f_abs (f_sub c region_mean) in
      if f_lt max_dev d then suspect_loop region_mean rest (d, Some name)
      else suspect_loop region_mean rest (max_dev, suspected_node))"

definition detect_code_anomaly :: "config \<Rightarrow> node \<Rightarrow> node" where
  "detect_code_anomaly cfg s =
     (if length (code_sequence s) < 5 then s
      else
        let region_codes =
              map (\<lambda>nd. (fst nd, code (snd nd)))
                (filter (\<lambda>nd. REGION_MAP cfg (fst nd) = Some (region s)) (state_neighbors s))
        in if length region_codes < 2 then s
           else
             let region_mean = f_div (foldl f_add (Num 0) (map snd region_codes))
                                 (Num (real (length region_codes)));
                 deviation = f_abs (f_sub (state_x s) region_mean)
             in if f_lt (Num 0.5) deviation then
                  (case snd (suspect_loop region_mean region_codes (Num 0, None)) of
                     None \<Rightarrow> s
                   | Some suspected_node \<Rightarrow>
                       if suspected_node \<noteq> [] \<and> \<not> suspicion_triggered s
                       then trigger_alert s else s)
                else s)"

subsection \<open>The epoch loop\<close>

text \<open>
  One pass through the body of the \<^verbatim>\<open>if\<close> in \<^verbatim>\<open>run\<close>, which the loop enters each time
  \<^verbatim>\<open>EPOCH_INTERVAL_MS\<close> has elapsed. An exception leaves \<^verbatim>\<open>run\<close> and ends the program.
\<close>

definition tick :: "config \<Rightarrow> int \<Rightarrow> node \<Rightarrow> py_error + node" where
  "tick cfg now s =
     (let s1 = s\<lparr>state_epoch := state_epoch s + 1\<rparr> in
      case (if state_status s1 = STABLE then
              (case check_topology_change cfg now s1 of
                 Inl e \<Rightarrow> Inl e
               | Inr (changed, s2) \<Rightarrow>
                   if changed then handle_disturbance cfg s2 else Inr s2)
            else converge_state cfg s1) of
        Inl e \<Rightarrow> Inl e
      | Inr s3 \<Rightarrow>
         (case broadcast_state cfg s3 of
            Inl e \<Rightarrow> Inl e
          | Inr s4 \<Rightarrow>
              let s5 = update_code_sequence s4;
                  s6 = detect_code_anomaly cfg s5;
                  s7 = s6\<lparr>led := (state_status s6 = STABLE)\<rparr>
              in Inr (if state_epoch s7 mod 10 = 0 then cleanup_neighbors cfg now s7 else s7)))"

text \<open>
  The radio delivers messages between two passes; \<open>run_ticks\<close> is a finite prefix of
  the endless loop, one pair of a clock reading and the newly arrived messages per
  pass.
\<close>

definition deliver :: "string list \<Rightarrow> node \<Rightarrow> node" where
  "deliver msgs s = s\<lparr>inbox := inbox s @ msgs\<rparr>"

fun run_ticks :: "config \<Rightarrow> (int \<times> string list) list \<Rightarrow> node \<Rightarrow> py_error + node" where
  "run_ticks cfg [] s = Inr s"
| "run_ticks cfg ((now, msgs) # rest) s =
     (case tick cfg now (deliver msgs s) of
        Inl e \<Rightarrow> Inl e
      | Inr s' \<Rightarrow> run_ticks cfg rest s')"

text \<open>
  \<^verbatim>\<open>__init__\<close>: \<open>addable\<close> tells which peers the radio accepts (\<^verbatim>\<open>add_peer\<close> is inside a
  \<^verbatim>\<open>try\<close>).
\<close>

definition init :: "config \<Rightarrow> (string \<Rightarrow> bool) \<Rightarrow> string \<Rightarrow> py_error + node" where
  "init cfg addable name =
     (case NODE_CONFIG cfg name of
        None \<Rightarrow> Inl KeyError
      | Some np \<Rightarrow>
         (case q_list np of
            [] \<Rightarrow> Inl IndexError
          | q0 # _ \<Rightarrow>
             (case inv_sqrt q0 of
                Inl e \<Rightarrow> Inl e
              | Inr a \<Rightarrow>
                  Inr \<lparr>node_name = name,
                       region = (case REGION_MAP cfg name of None \<Rightarrow> ''UNKNOWN'' | Some r \<Rightarrow> r),
                       peers = filter (\<lambda>pm. fst pm \<noteq> name \<and> addable (fst pm)) (PEERS cfg),
                       current_q_index = 0,
                       state_x = Num (param_p np),
                       state_status = STABLE,
                       state_neighbors = [],
                       state_epoch = 0,
                       state_a_i = a,
                       state_convergence_count = 0,
                       state_message_counter = 0,
                       state_previous_neighbors = {},
                       code_sequence = [],
                       max_history = 20,
                       suspicion_triggered = False,
                       clone_check_log = Map.empty,
                       led = False,
                       alerts = 0,
                       inbox = [],
                       outbox = []\<rparr>)))"

section \<open>The specification's wording\<close>

text \<open>
  Definitions that follow the words of the specification, to be compared with the
  code above. A message is malformed when it has fewer than seven fields, a foreign
  network identifier, or a numeric field that does not parse.
\<close>

definition malformed :: "config \<Rightarrow> string \<Rightarrow> bool" where
  "malformed cfg msg =
     (let parts = split_on CHR '':'' msg in
      length parts < 7 \<or> parts ! 0 \<noteq> NETWORK_ID cfg \<or>
      py_float cfg (parts ! 3) = None \<or> py_int cfg (parts ! 6) = None)"

text \<open>
  The pseudo-geometric mean as the specification words it: a neighbour counts when
  its region is the node's and its recorded epoch is within 2 of the node's epoch.
\<close>

definition spec_pseudo_geometric_mean :: "config \<Rightarrow> node \<Rightarrow> py_error + pyfloat" where
  "spec_pseudo_geometric_mean cfg s =
     (let included =
            filter (\<lambda>nd. REGION_MAP cfg (fst nd) = Some (region s) \<and>
                         \<bar>state_epoch s - nb_epoch (snd nd)\<bar> \<le> 2)
              (state_neighbors s);
          product = (if included = [] then reciprocal (state_x s)
                     else foldl f_mul (Num 1) (map (\<lambda>nd. reciprocal (code (snd nd))) included))
      in py_pow product (state_a_i s))"


text \<open>Heuristic A and the neighbour table's upsert, as the specification names them.\<close>

definition heuristic_A :: "string \<Rightarrow> int \<Rightarrow> pyfloat \<Rightarrow> node \<Rightarrow> node" where
  "heuristic_A identity e v s =
     (case clone_check_log s (identity, e) of
        Some seen \<Rightarrow> if f_lt (Num 0.01) (f_abs (f_sub seen v)) then trigger_alert s else s
      | None \<Rightarrow> s\<lparr>clone_check_log := (clone_check_log s)((identity, e) \<mapsto> v)\<rparr>)"

definition upsert :: "string \<Rightarrow> pyfloat \<Rightarrow> string \<Rightarrow> int \<Rightarrow> int \<Rightarrow> node \<Rightarrow> node" where
  "upsert identity c st e now s =
     s\<lparr>state_neighbors :=
         dict_set identity \<lparr>code = c, nb_status = st, nb_epoch = e, last_seen = now\<rparr>
           (state_neighbors s)\<rparr>"

section \<open>A concrete network\<close>

text \<open>
  A reader of plain decimal literals (an optional minus sign, digits, an optional
  fraction) and of \<^verbatim>\<open>inf\<close>, \<^verbatim>\<open>-inf\<close> and \<^verbatim>\<open>nan\<close> stands for \<^verbatim>\<open>float\<close> and \<^verbatim>\<open>int\<close> in the
  examples; on such literals it agrees with Python.
\<close>

definition digit_of :: "char \<Rightarrow> nat option" where
  "digit_of c =
     (let n = (of_char c :: nat) in if 48 \<le> n \<and> n \<le> 57 then Some (n - 48) else None)"

fun digits_val :: "string \<Rightarrow> nat \<Rightarrow> nat option" where
  "digits_val [] acc = Some acc"
| "digits_val (c # cs) acc =
     (case digit_of c of None \<Rightarrow> None | Some d \<Rightarrow> digits_val cs (10 * acc + d))"

definition dec_nat :: "string \<Rightarrow> nat option" where
  "dec_nat s = (if s = [] then None else digits_val s 0)"

definition dec_int :: "string \<Rightarrow> int option" where
  "dec_int s =
     (case s of
        [] \<Rightarrow> None
      | c # t \<Rightarrow> if c = CHR ''-'' then map_option (\<lambda>n. - int n) (dec_nat t)
                 else map_option int (dec_nat s))"

definition dec_unsigned :: "string \<Rightarrow> real option" where
  "dec_unsigned s =
     (case split_on CHR ''.'' s of
        [i] \<Rightarrow> map_option real (dec_nat i)
      | [i, f] \<Rightarrow>
          (case (dec_nat i, dec_nat f) of
             (Some a, Some b) \<Rightarrow> Some (real a + real b / 10 ^ length f)
           | _ \<Rightarrow> None)
      | _ \<Rightarrow> None)"

definition dec_float :: "string \<Rightarrow> real option" where
  "dec_float s =
     (case s of
        [] \<Rightarrow> None
      | c # t \<Rightarrow> if c = CHR ''-'' then map_option uminus (dec_unsigned t)
                 else dec_unsigned s)"

definition demo_float :: "string \<Rightarrow> pyfloat option" where
  "demo_float s =
     (if s = ''nan'' then Some NaN
      else if s = ''inf'' then Some PInf
      else if s = ''-inf'' then Some MInf
      else map_option Num (dec_float s))"

text \<open>
  Three nodes \<open>A\<close>, \<open>B\<close>, \<open>C\<close> of one region; \<open>A\<close> runs the program with the single
  exponent parameter \<open>q = 1\<close>, so that \<open>a_i = 1\<close>.
\<close>

definition demo_config :: config where
  "demo_config =
     \<lparr>NETWORK_ID = ''NET'',
      REGION_MAP = [''A'' \<mapsto> ''R1'', ''B'' \<mapsto> ''R1'', ''C'' \<mapsto> ''R1''],
      PEERS = [(''A'', ''aa''), (''B'', ''bb''), (''C'', ''cc'')],
      NODE_CONFIG = [''A'' \<mapsto> \<lparr>param_p = 0.5, q_list = [1]\<rparr>],
      CONVERGENCE_THRESHOLD = 0.01,
      STABLE_EPOCHS_REQUIRED = 3,
      EPOCH_INTERVAL_MS = 1000,
      py_float = demo_float,
      py_int = dec_int\<rparr>"


definition accept_all :: "string \<Rightarrow> bool" where
  "accept_all name = True"

text \<open>Node \<open>A\<close> as \<^verbatim>\<open>__init__\<close> leaves it.\<close>

definition demo_node :: node where
  "demo_node =
     \<lparr>node_name = ''A'', region = ''R1'',
      peers = [(''B'', ''bb''), (''C'', ''cc'')],
      current_q_index = 0, state_x = Num 0.5, state_status = STABLE,
      state_neighbors = [], state_epoch = 0, state_a_i = 1,
      state_convergence_count = 0, state_message_counter = 0,
      state_previous_neighbors = {}, code_sequence = [], max_history = 20,
      suspicion_triggered = False, clone_check_log = Map.empty,
      led = False, alerts = 0, inbox = [], outbox = []\<rparr>"

definition demo_neighbor :: "pyfloat \<Rightarrow> int \<Rightarrow> neighbor_data" where
  "demo_neighbor c e = \<lparr>code = c, nb_status = ''STABLE'', nb_epoch = e, last_seen = 0\<rparr>"

text \<open>The program: \<^verbatim>\<open>GTI_Node(NODE_NAME)\<close>, then the passes of \<^verbatim>\<open>run\<close>.\<close>

definition program :: "config \<Rightarrow> (string \<Rightarrow> bool) \<Rightarrow> string \<Rightarrow> (int \<times> string list) list \<Rightarrow> py_error + node" where
  "program cfg addable name inputs =
     (case init cfg addable name of
        Inl e \<Rightarrow> Inl e
      | Inr s \<Rightarrow> run_ticks cfg inputs s)"

section \<open>Notions used in the proofs\<close>

text \<open>
  The statements of a pass that follow the consensus step, from \<^verbatim>\<open>broadcast_state\<close>
  on.
\<close>

definition tick_tail :: "config \<Rightarrow> int \<Rightarrow> node \<Rightarrow> py_error + node" where
  "tick_tail cfg now s3 =
     (case broadcast_state cfg s3 of
        Inl e \<Rightarrow> Inl e
      | Inr s4 \<Rightarrow>
          let s5 = update_code_sequence s4;
              s6 = detect_code_anomaly cfg s5;
              s7 = s6\<lparr>led := (state_status s6 = STABLE)\<rparr>
          in Inr (if state_epoch s7 mod 10 = 0 then cleanup_neighbors cfg now s7 else s7))"

text \<open>
  How the alert latch may move between two states: once set it stays set and the
  LED sequence does not run again; while unset, either nothing happens or the latch
  is set and the sequence runs once.
\<close>

definition alert_step :: "node \<Rightarrow> node \<Rightarrow> bool" where
  "alert_step s s' =
     (if suspicion_triggered s
      then suspicion_triggered s' \<and> alerts s' = alerts s
      else (\<not> suspicion_triggered s' \<and> alerts s' = alerts s) \<or>
           (suspicion_triggered s' \<and> alerts s' = alerts s + 1))"

definition latched :: "node \<Rightarrow> bool" where
  "latched s = (alerts s = (if suspicion_triggered s then 1 else 0))"

text \<open>A finite number above zero, and messages whose accepted codes are such numbers.\<close>

definition positive :: "pyfloat \<Rightarrow> bool" where
  "positive v = (case v of Num r \<Rightarrow> 0 < r | _ \<Rightarrow> False)"

definition positive_codes :: "config \<Rightarrow> string list \<Rightarrow> bool" where
  "positive_codes cfg msgs =
     (\<forall>m \<in> set msgs. \<forall>v. \<not> malformed cfg m \<longrightarrow>
        py_float cfg (split_on CHR '':'' m ! 3) = Some v \<longrightarrow> positive v)"

definition positive_inputs :: "config \<Rightarrow> (int \<times> string list) list \<Rightarrow> bool" where
  "positive_inputs cfg inputs = (\<forall>i \<in> set inputs. positive_codes cfg (snd i))"

text \<open>The node's own code and the codes of its neighbour table are above zero.\<close>

definition positive_node :: "config \<Rightarrow> node \<Rightarrow> bool" where
  "positive_node cfg s =
     (positive (state_x s) \<and> (\<forall>nd \<in> set (state_neighbors s). positive (code (snd nd))) \<and>
      positive_codes cfg (inbox s))"

text \<open>
  The identities in the neighbour table once the pending messages are processed:
  \<^verbatim>\<open>current_neighbors\<close> of \<^verbatim>\<open>check_topology_change\<close>.
\<close>

definition current_neighbors :: "config \<Rightarrow> int \<Rightarrow> node \<Rightarrow> string set" where
  "current_neighbors cfg now s = dict_keys (state_neighbors (process_messages cfg now s))"

text \<open>Projections of a result, for statements about one attribute.\<close>

definition result_of :: "(node \<Rightarrow> 'a) \<Rightarrow> py_error + node \<Rightarrow> 'a option" where
  "result_of f r = (case r of Inl e \<Rightarrow> None | Inr s \<Rightarrow> Some (f s))"

section \<open>Basic facts\<close>

lemma init_demo: "init demo_config accept_all ''A'' = Inr demo_node"
  by (simp add: init_def demo_config_def demo_node_def inv_sqrt_def accept_all_def)

lemma next_q_Inr:
  "next_q cfg s = Inr (s1, q, a) \<Longrightarrow>
     \<exists>np. NODE_CONFIG cfg (node_name s) = Some np \<and> q_list np \<noteq> [] \<and>
          s1 = s\<lparr>current_q_index := (current_q_index s + 1) mod length (q_list np)\<rparr> \<and>
          q = q_list np ! ((current_q_index s + 1) mod length (q_list np)) \<and>
          0 < q \<and> a = 1 / sqrt q"
  by (auto simp: next_q_def inv_sqrt_def Let_def split: option.splits if_splits sum.splits)

lemma handle_message_malformed:
  "malformed cfg msg \<Longrightarrow> handle_message cfg now msg s = s"
  by (auto simp: malformed_def handle_message_def try_message_def Let_def
           split: option.splits sum.splits)

section \<open>Malformed messages\<close>

text \<open>
  Claim C10. A malformed inbound message (fewer than seven colon-separated fields, a
  first field that is not the network identifier, or an \<open>x\<close> or epoch field that does
  not parse) is discarded: the \<^verbatim>\<open>try\<close> block either does nothing or raises the
  \<^verbatim>\<open>ValueError\<close> that the handler catches, the node after the message is the node before
  it (neighbour table and own state included), and the loop goes on to the next
  message.
\<close>

theorem malformed_discarded:
  assumes "malformed cfg msg"
  shows "(try_message cfg now msg s = Inr s \<or> try_message cfg now msg s = Inl ValueError) \<and>
         handle_message cfg now msg s = s \<and>
         (msg \<noteq> [] \<longrightarrow> drain cfg now (msg # rest) s = drain cfg now rest s) \<and>
         process_messages cfg now (s\<lparr>inbox := [msg]\<rparr>) = s\<lparr>inbox := []\<rparr>"
proof -
  have a: "try_message cfg now msg s = Inr s \<or> try_message cfg now msg s = Inl ValueError"
    using assms
    by (auto simp: malformed_def try_message_def Let_def split: option.splits)
  have b: "handle_message cfg now msg s = s" for s
    using assms by (rule handle_message_malformed)
  have c: "msg \<noteq> [] \<longrightarrow> drain cfg now (msg # rest) s = drain cfg now rest s"
    by (simp add: b)
  have d: "process_messages cfg now (s\<lparr>inbox := [msg]\<rparr>) = s\<lparr>inbox := []\<rparr>"
    by (cases "msg = []") (simp_all add: process_messages_def b)
  from a b c d show ?thesis by blast
qed

text \<open>A message of five fields leaves node \<open>A\<close> as it was.\<close>

theorem malformed_discarded_witness:
  "malformed demo_config ''NET:B:STABLE:1.0:1'' \<and>
   handle_message demo_config 7 ''NET:B:STABLE:1.0:1'' demo_node = demo_node \<and>
   process_messages demo_config 7 (demo_node\<lparr>inbox := [''NET:B:STABLE:1.0:1'']\<rparr>)
     = demo_node\<lparr>inbox := []\<rparr>"
proof -
  have m: "malformed demo_config ''NET:B:STABLE:1.0:1''"
    by (simp add: malformed_def)
  from malformed_discarded[OF m, of 7 demo_node "[]"] m show ?thesis by simp
qed

lemmas demo_eval =
  demo_config_def demo_node_def demo_neighbor_def converge_state_def next_q_def inv_sqrt_def
  calculate_pseudogeometric_mean_def valid_neighbor_def reciprocal_def py_pow_def py_div_def

section \<open>The convergence tick\<close>



section \<open>Disturbance handling\<close>





section \<open>The pseudo-geometric mean\<close>

lemma pgm_loop_eq:
  "pgm_loop cfg s nds (p, n) =
     (foldl f_mul p (map (\<lambda>nd. reciprocal (code (snd nd))) (filter (valid_neighbor cfg s) nds)),
      n + length (filter (valid_neighbor cfg s) nds))"
  by (induction nds arbitrary: p n) simp_all

lemma f_le_not_lt: "f_le v w \<Longrightarrow> \<not> f_lt w v"
  by (cases v; cases w) simp_all

text \<open>
  Claim C3, as amended. \<^verbatim>\<open>calculate_pseudogeometric_mean\<close> returns \<open>product ** a_i\<close>,
  where the product multiplies \<open>reciprocal\<close> of the code over exactly the entries of
  the neighbour table whose region is the node's own and whose recorded epoch is at
  most 2 behind the node's epoch (an entry whose epoch is ahead of the node's always
  counts), in the order of the table and starting from 1, and is \<open>reciprocal\<close> of the
  node's own \<open>x\<close> when no entry qualifies; \<open>reciprocal v = 1 / v\<close> for \<open>v > 1\<close> and
  \<open>reciprocal v = v\<close> for \<open>0 < v \<le> 1\<close>, for floats in general and for finite numbers in
  particular.
\<close>

theorem pseudogeometric_mean_spec:
  "calculate_pseudogeometric_mean cfg s =
     py_pow
       (if filter (\<lambda>nd. REGION_MAP cfg (fst nd) = Some (region s) \<and>
                        state_epoch s - nb_epoch (snd nd) \<le> 2) (state_neighbors s) = []
        then reciprocal (state_x s)
        else foldl f_mul (Num 1) (map (\<lambda>nd. reciprocal (code (snd nd)))
               (filter (\<lambda>nd. REGION_MAP cfg (fst nd) = Some (region s) \<and>
                             state_epoch s - nb_epoch (snd nd) \<le> 2) (state_neighbors s))))
       (state_a_i s) \<and>
   (\<forall>v. f_lt (Num 1) v \<longrightarrow> reciprocal v = f_div (Num 1) v) \<and>
   (\<forall>v. f_lt (Num 0) v \<and> f_le v (Num 1) \<longrightarrow> reciprocal v = v) \<and>
   (\<forall>r. r > 1 \<longrightarrow> reciprocal (Num r) = Num (1 / r)) \<and>
   (\<forall>r. 0 < r \<and> r \<le> 1 \<longrightarrow> reciprocal (Num r) = Num r)"
proof -
  have v: "valid_neighbor cfg s = (\<lambda>nd. REGION_MAP cfg (fst nd) = Some (region s) \<and>
                        state_epoch s - nb_epoch (snd nd) \<le> 2)"
    by (rule ext) (simp add: valid_neighbor_def)
  have "calculate_pseudogeometric_mean cfg s =
     py_pow
       (if filter (valid_neighbor cfg s) (state_neighbors s) = []
        then reciprocal (state_x s)
        else foldl f_mul (Num 1) (map (\<lambda>nd. reciprocal (code (snd nd)))
               (filter (valid_neighbor cfg s) (state_neighbors s))))
       (state_a_i s)"
    by (simp add: calculate_pseudogeometric_mean_def pgm_loop_eq)
  then show ?thesis
    unfolding v using f_le_not_lt[of _ "Num 1"] by (auto simp: reciprocal_def)
qed

text \<open>
  Neighbours \<open>B\<close> and \<open>C\<close> of the node's region, two epochs behind, with codes 4 and
  0.5, and a neighbour \<open>D\<close> that the region map does not know: the mean is
  \<open>1/4 * 1/2\<close> to the power 1. With the only neighbour three epochs behind, the mean
  falls back to \<open>reciprocal\<close> of the node's own \<open>x = 3\<close>.
\<close>

theorem pseudogeometric_mean_spec_witness:
  "calculate_pseudogeometric_mean demo_config
     (demo_node\<lparr>state_neighbors :=
        [(''B'', demo_neighbor (Num 4) 0), (''C'', demo_neighbor (Num 0.5) 0),
         (''D'', demo_neighbor (Num 0.1) 0)],
        state_epoch := 2\<rparr>) = Inr (Num (1 / 8)) \<and>
   calculate_pseudogeometric_mean demo_config
     (demo_node\<lparr>state_neighbors := [(''B'', demo_neighbor (Num 4) 0)], state_epoch := 3,
                state_x := Num 3\<rparr>) = Inr (Num (1 / 3)) \<and>
   reciprocal (Num 4) = Num (1 / 4) \<and> reciprocal (Num 0.5) = Num 0.5"
proof -
  have r: "reciprocal (Num 4) = Num (1 / 4)" "reciprocal (Num 0.5) = Num 0.5"
    using pseudogeometric_mean_spec[of demo_config demo_node] by simp_all
  show ?thesis
    using r
    by (simp add: pseudogeometric_mean_spec demo_config_def demo_node_def demo_neighbor_def
          py_pow_def)
qed

text \<open>
  Claim C3 as stated fails: a neighbour whose recorded epoch is 100 while the node's
  epoch is 0 is not within 2 of it, yet the code counts it.
\<close>

theorem pseudogeometric_mean_future_epoch_counterexample:
  "calculate_pseudogeometric_mean demo_config
     (demo_node\<lparr>state_neighbors := [(''B'', demo_neighbor (Num 4) 100)]\<rparr>) = Inr (Num (1 / 4)) \<and>
   spec_pseudo_geometric_mean demo_config
     (demo_node\<lparr>state_neighbors := [(''B'', demo_neighbor (Num 4) 100)]\<rparr>) = Inr (Num (1 / 2))"
  by (simp add: spec_pseudo_geometric_mean_def demo_eval)

section \<open>Inbound messages and Heuristic A\<close>

lemma not_malformedD:
  "\<not> malformed cfg msg \<Longrightarrow>
     length (split_on CHR '':'' msg) \<ge> 7 \<and> split_on CHR '':'' msg ! 0 = NETWORK_ID cfg \<and>
     (\<exists>v e. py_float cfg (split_on CHR '':'' msg ! 3) = Some v \<and>
            py_int cfg (split_on CHR '':'' msg ! 6) = Some e)"
  by (auto simp: malformed_def Let_def)

lemma handle_message_accepted:
  assumes "length (split_on CHR '':'' msg) \<ge> 7"
    and "split_on CHR '':'' msg ! 0 = NETWORK_ID cfg"
    and "py_float cfg (split_on CHR '':'' msg ! 3) = Some v"
    and "py_int cfg (split_on CHR '':'' msg ! 6) = Some e"
  shows "handle_message cfg now msg s =
           (if split_on CHR '':'' msg ! 1 \<in> dict_keys (peers s)
            then upsert (split_on CHR '':'' msg ! 1) v (split_on CHR '':'' msg ! 2) e now
                   (heuristic_A (split_on CHR '':'' msg ! 1) e v s)
            else heuristic_A (split_on CHR '':'' msg ! 1) e v s)"
  using assms
  by (simp add: handle_message_def try_message_def heuristic_A_def upsert_def Let_def
        trigger_alert_def split: option.splits)

lemma heuristic_A_log_kept:
  "clone_check_log s k = Some w \<Longrightarrow> clone_check_log (heuristic_A n e v s) k = Some w"
  by (auto simp: heuristic_A_def trigger_alert_def split: option.splits)

lemma handle_message_log_kept:
  assumes a: "clone_check_log s k = Some w"
  shows "clone_check_log (handle_message cfg now msg s) k = Some w"
proof (cases "malformed cfg msg")
  case True
  then show ?thesis using a by (simp add: handle_message_malformed)
next
  case False
  from not_malformedD[OF False] obtain v e where
    h: "length (split_on CHR '':'' msg) \<ge> 7" "split_on CHR '':'' msg ! 0 = NETWORK_ID cfg"
       "py_float cfg (split_on CHR '':'' msg ! 3) = Some v"
       "py_int cfg (split_on CHR '':'' msg ! 6) = Some e" by blast
  show ?thesis
    unfolding handle_message_accepted[OF h]
    using heuristic_A_log_kept[OF a] by (simp add: upsert_def)
qed

lemma drain_log_kept:
  "clone_check_log s k = Some w \<Longrightarrow> clone_check_log (fst (drain cfg now msgs s)) k = Some w"
  by (induction msgs arbitrary: s) (simp_all add: handle_message_log_kept)

lemma process_messages_log_kept:
  assumes "clone_check_log s k = Some w"
  shows "clone_check_log (process_messages cfg now s) k = Some w"
proof -
  obtain s' rest where d: "drain cfg now (inbox s) s = (s', rest)" by (cases "drain cfg now (inbox s) s")
  with drain_log_kept[OF assms, of cfg now "inbox s"] show ?thesis
    by (simp add: process_messages_def)
qed

section \<open>The shape of a pass\<close>

lemma tick_eq:
  "tick cfg now s =
     (case (if state_status s = STABLE then
              (case check_topology_change cfg now (s\<lparr>state_epoch := state_epoch s + 1\<rparr>) of
                 Inl e \<Rightarrow> Inl e
               | Inr (changed, s2) \<Rightarrow>
                   if changed then handle_disturbance cfg s2 else Inr s2)
            else converge_state cfg (s\<lparr>state_epoch := state_epoch s + 1\<rparr>)) of
        Inl e \<Rightarrow> Inl e
      | Inr s3 \<Rightarrow> tick_tail cfg now s3)"
  by (simp add: tick_def tick_tail_def Let_def split: sum.splits)

lemma handle_disturbance_shape:
  assumes "handle_disturbance cfg s = Inr s'"
  shows "\<exists>i a v mu.
           calculate_pseudogeometric_mean cfg
             (s\<lparr>current_q_index := i, state_a_i := a, state_epoch := state_epoch s + 1,
                state_status := DISTURBED, state_convergence_count := 0\<rparr>) = Inr mu \<and>
           mu \<noteq> Num 0 \<and>
           v = (if f_lt (f_div (Num 1) mu) (Num 1.2) then Num 1.2 else f_div (Num 1) mu) \<and>
           s' = s\<lparr>current_q_index := i, state_a_i := a, state_epoch := state_epoch s + 1,
                  state_status := DISTURBED, state_convergence_count := 0, state_x := v\<rparr>"
proof -
  from assms obtain s1 q a where nq: "next_q cfg s = Inr (s1, q, a)"
    by (auto simp: handle_disturbance_def split: sum.splits)
  from next_q_Inr[OF nq] obtain i where s1: "s1 = s\<lparr>current_q_index := i\<rparr>" by blast
  let ?s2 = "s\<lparr>current_q_index := i, state_a_i := a, state_epoch := state_epoch s + 1,
                state_status := DISTURBED, state_convergence_count := 0\<rparr>"
  from assms nq s1 obtain mu where mu: "calculate_pseudogeometric_mean cfg ?s2 = Inr mu"
    by (auto simp: handle_disturbance_def Let_def split: sum.splits)
  from assms nq s1 mu have z: "mu \<noteq> Num 0"
    by (auto simp: handle_disturbance_def py_div_def Let_def split: sum.splits if_splits)
  have "s' = ?s2\<lparr>state_x := (if f_lt (f_div (Num 1) mu) (Num 1.2) then Num 1.2
                                   else f_div (Num 1) mu)\<rparr>"
    using assms nq s1 mu z
    by (simp add: handle_disturbance_def py_div_def Let_def)
  with mu z show ?thesis by auto
qed

lemma converge_state_shape:
  assumes "converge_state cfg s = Inr s'"
  shows "\<exists>i a c v st mu.
           calculate_pseudogeometric_mean cfg
             (s\<lparr>current_q_index := i, state_a_i := a, state_epoch := state_epoch s + 1\<rparr>) = Inr mu \<and>
           (v = state_x s \<or> v = mu) \<and>
           s' = s\<lparr>current_q_index := i, state_a_i := a, state_epoch := state_epoch s + 1,
                  state_convergence_count := c, state_x := v, state_status := st\<rparr>"
proof -
  from assms obtain s1 q a where nq: "next_q cfg s = Inr (s1, q, a)"
    by (auto simp: converge_state_def split: sum.splits)
  from next_q_Inr[OF nq] obtain i where s1: "s1 = s\<lparr>current_q_index := i\<rparr>" by blast
  from assms nq s1 obtain mu where mu: "calculate_pseudogeometric_mean cfg
             (s\<lparr>current_q_index := i, state_a_i := a, state_epoch := state_epoch s + 1\<rparr>) = Inr mu"
    by (auto simp: converge_state_def Let_def split: sum.splits)
  let ?s2 = "s\<lparr>current_q_index := i, state_a_i := a, state_epoch := state_epoch s + 1\<rparr>"
  have "s' = ?s2\<lparr>state_convergence_count := state_convergence_count s', state_x := state_x s',
                state_status := state_status s'\<rparr> \<and> (state_x s' = state_x s \<or> state_x s' = mu)"
    using assms nq s1 mu
    by (auto simp: converge_state_def Let_def split: if_splits)
  with mu show ?thesis by blast
qed

lemma trigger_alert_shape:
  "trigger_alert s = s\<lparr>suspicion_triggered := suspicion_triggered (trigger_alert s),
                        led := led (trigger_alert s), alerts := alerts (trigger_alert s)\<rparr>"
  by (simp add: trigger_alert_def)

lemma trigger_alert_step: "alert_step s (trigger_alert s)"
  by (simp add: alert_step_def trigger_alert_def)

lemma alert_step_refl: "alert_step s s"
  by (simp add: alert_step_def)

lemma alert_step_trans: "alert_step s t \<Longrightarrow> alert_step t u \<Longrightarrow> alert_step s u"
  by (auto simp: alert_step_def split: if_splits)

lemma alert_step_cong:
  "suspicion_triggered t = suspicion_triggered s \<Longrightarrow> alerts t = alerts s \<Longrightarrow> alert_step s t"
  by (simp add: alert_step_def)

lemma alert_step_latched: "latched s \<Longrightarrow> alert_step s t \<Longrightarrow> latched t"
  by (auto simp: alert_step_def latched_def split: if_splits)

lemma alert_step_mono: "alert_step s t \<Longrightarrow> alerts s \<le> alerts t"
  by (auto simp: alert_step_def split: if_splits)

lemma tick_tail_shape:
  assumes "tick_tail cfg now s = Inr s'"
  shows "\<exists>mc ob cs sus l al nbs.
           s' = s\<lparr>state_message_counter := mc, outbox := ob, code_sequence := cs,
                  suspicion_triggered := sus, led := l, alerts := al,
                  state_neighbors := nbs\<rparr> \<and>
           set nbs \<subseteq> set (state_neighbors s) \<and> alert_step s s'"
proof -
  from assms obtain s4 where b: "broadcast_state cfg s = Inr s4"
    by (auto simp: tick_tail_def split: sum.splits)
  then obtain mc ob where s4: "s4 = s\<lparr>state_message_counter := mc, outbox := ob\<rparr>"
    by (auto simp: broadcast_state_def Let_def split: option.splits if_splits)
  define s5 where "s5 = update_code_sequence s4"
  define s6 where "s6 = detect_code_anomaly cfg s5"
  define s7 where "s7 = s6\<lparr>led := (state_status s6 = STABLE)\<rparr>"
  obtain cs where s5: "s5 = s4\<lparr>code_sequence := cs\<rparr>"
    by (simp add: s5_def update_code_sequence_def Let_def)
  have d: "s6 = s5 \<or> s6 = trigger_alert s5"
    by (simp add: s6_def detect_code_anomaly_def Let_def split: option.splits)
  have a6: "alert_step s5 s6"
    using d trigger_alert_step[of s5] alert_step_refl[of s5] by auto
  have "s6 = s5\<lparr>suspicion_triggered := suspicion_triggered s6, led := led s6,
                 alerts := alerts s6\<rparr>"
    using d trigger_alert_shape[of s5] by auto
  then obtain sus l al where s6: "s6 = s5\<lparr>suspicion_triggered := sus, led := l, alerts := al\<rparr>"
    by blast
  have r: "s' = (if state_epoch s7 mod 10 = 0 then cleanup_neighbors cfg now s7 else s7)"
    using assms b by (auto simp: tick_tail_def s5_def s6_def s7_def Let_def)
  obtain nbs where s': "s' = s7\<lparr>state_neighbors := nbs\<rparr>"
    and sub: "set nbs \<subseteq> set (state_neighbors s7)"
  proof (cases "state_epoch s7 mod 10 = 0")
    case True
    with r have "s' = s7\<lparr>state_neighbors :=
         filter (\<lambda>nd. \<not> ticks_diff now (last_seen (snd nd)) > 7 * EPOCH_INTERVAL_MS cfg)
           (state_neighbors s7)\<rparr>" by (simp add: cleanup_neighbors_def)
    then show ?thesis using that by auto
  next
    case False
    with r have "s' = s7\<lparr>state_neighbors := state_neighbors s7\<rparr>" by simp
    then show ?thesis using that by blast
  qed
  have full: "s' = s\<lparr>state_message_counter := mc, outbox := ob, code_sequence := cs,
                  suspicion_triggered := sus, led := (state_status s = STABLE), alerts := al,
                  state_neighbors := nbs\<rparr>"
    unfolding s' s7_def s6 s5 s4 by simp
  have sub': "set nbs \<subseteq> set (state_neighbors s)"
    using sub unfolding s7_def s6 s5 s4 by simp
  have f: "suspicion_triggered s5 = suspicion_triggered s" "alerts s5 = alerts s"
    unfolding s5 s4 by simp_all
  have g: "suspicion_triggered s' = suspicion_triggered s6" "alerts s' = alerts s6"
    unfolding s' s7_def by simp_all
  have "alert_step s s'"
    using a6 f g by (auto simp: alert_step_def split: if_splits)
  with full sub' show ?thesis by blast
qed

section \<open>The message loop\<close>

lemma heuristic_A_shape:
  "\<exists>sus l al lg. heuristic_A n e v s =
       s\<lparr>suspicion_triggered := sus, led := l, alerts := al, clone_check_log := lg\<rparr>"
proof (cases "clone_check_log s (n, e)")
  case None
  then have "heuristic_A n e v s = s\<lparr>suspicion_triggered := suspicion_triggered s, led := led s,
       alerts := alerts s, clone_check_log := (clone_check_log s)((n, e) \<mapsto> v)\<rparr>"
    by (simp add: heuristic_A_def)
  then show ?thesis by blast
next
  case (Some w)
  then have "heuristic_A n e v s = s \<or> heuristic_A n e v s = trigger_alert s"
    by (simp add: heuristic_A_def)
  then have "heuristic_A n e v s = s\<lparr>suspicion_triggered := suspicion_triggered (heuristic_A n e v s),
       led := led (heuristic_A n e v s), alerts := alerts (heuristic_A n e v s),
       clone_check_log := clone_check_log s\<rparr>"
    using trigger_alert_shape[of s] by (auto simp: trigger_alert_def)
  then show ?thesis by blast
qed

lemma heuristic_A_step: "alert_step s (heuristic_A n e v s)"
  using trigger_alert_step[of s] alert_step_refl[of s]
  by (auto simp: heuristic_A_def alert_step_def split: option.splits)

lemma handle_message_shape:
  "\<exists>sus l al lg nbs. handle_message cfg now msg s =
       s\<lparr>suspicion_triggered := sus, led := l, alerts := al, clone_check_log := lg,
         state_neighbors := nbs\<rparr>"
proof (cases "malformed cfg msg")
  case True
  then have "handle_message cfg now msg s = s\<lparr>suspicion_triggered := suspicion_triggered s,
      led := led s, alerts := alerts s, clone_check_log := clone_check_log s,
      state_neighbors := state_neighbors s\<rparr>"
    by (simp add: handle_message_malformed)
  then show ?thesis by blast
next
  case False
  from not_malformedD[OF False] obtain v e where
    h: "length (split_on CHR '':'' msg) \<ge> 7" "split_on CHR '':'' msg ! 0 = NETWORK_ID cfg"
       "py_float cfg (split_on CHR '':'' msg ! 3) = Some v"
       "py_int cfg (split_on CHR '':'' msg ! 6) = Some e" by blast
  obtain sus l al lg where a: "heuristic_A (split_on CHR '':'' msg ! 1) e v s =
       s\<lparr>suspicion_triggered := sus, led := l, alerts := al, clone_check_log := lg\<rparr>"
    using heuristic_A_shape by blast
  have "handle_message cfg now msg s =
       s\<lparr>suspicion_triggered := sus, led := l, alerts := al, clone_check_log := lg,
         state_neighbors := state_neighbors (handle_message cfg now msg s)\<rparr>"
    unfolding handle_message_accepted[OF h] a by (simp add: upsert_def)
  then show ?thesis by blast
qed

lemma handle_message_step: "alert_step s (handle_message cfg now msg s)"
proof (cases "malformed cfg msg")
  case True
  then show ?thesis by (simp add: handle_message_malformed alert_step_refl)
next
  case False
  from not_malformedD[OF False] obtain v e where
    h: "length (split_on CHR '':'' msg) \<ge> 7" "split_on CHR '':'' msg ! 0 = NETWORK_ID cfg"
       "py_float cfg (split_on CHR '':'' msg ! 3) = Some v"
       "py_int cfg (split_on CHR '':'' msg ! 6) = Some e" by blast
  show ?thesis
    unfolding handle_message_accepted[OF h]
    using heuristic_A_step[of s "split_on CHR '':'' msg ! 1" e v]
    by (auto simp: alert_step_def upsert_def split: if_splits)
qed

lemma drain_shape:
  "\<exists>sus l al lg nbs. fst (drain cfg now msgs s) =
       s\<lparr>suspicion_triggered := sus, led := l, alerts := al, clone_check_log := lg,
         state_neighbors := nbs\<rparr>"
proof (induction msgs arbitrary: s)
  case Nil
  have "s = s\<lparr>suspicion_triggered := suspicion_triggered s,
      led := led s, alerts := alerts s, clone_check_log := clone_check_log s,
      state_neighbors := state_neighbors s\<rparr>" by simp
  then show ?case by (metis drain.simps(1) fst_conv)
next
  case (Cons m ms)
  show ?case
  proof (cases "m = []")
    case True
    have "s = s\<lparr>suspicion_triggered := suspicion_triggered s,
      led := led s, alerts := alerts s, clone_check_log := clone_check_log s,
      state_neighbors := state_neighbors s\<rparr>" by simp
    with True show ?thesis by (metis drain.simps(2) fst_conv)
  next
    case False
    obtain sus l al lg nbs where a: "handle_message cfg now m s =
       s\<lparr>suspicion_triggered := sus, led := l, alerts := al, clone_check_log := lg,
         state_neighbors := nbs\<rparr>" using handle_message_shape by blast
    from Cons.IH[of "handle_message cfg now m s"] obtain sus' l' al' lg' nbs' where
      b: "fst (drain cfg now ms (handle_message cfg now m s)) =
        (handle_message cfg now m s)\<lparr>suspicion_triggered := sus', led := l', alerts := al',
           clone_check_log := lg', state_neighbors := nbs'\<rparr>" by blast
    have "fst (drain cfg now (m # ms) s) =
            fst (drain cfg now ms (handle_message cfg now m s))"
      using False by simp
    also have "\<dots> = (handle_message cfg now m s)\<lparr>suspicion_triggered := sus', led := l',
           alerts := al', clone_check_log := lg', state_neighbors := nbs'\<rparr>"
      by (rule b)
    also have "\<dots> = s\<lparr>suspicion_triggered := sus', led := l', alerts := al',
           clone_check_log := lg', state_neighbors := nbs'\<rparr>"
      by (simp add: a)
    finally show ?thesis by blast
  qed
qed

lemma drain_step: "alert_step s (fst (drain cfg now msgs s))"
proof (induction msgs arbitrary: s)
  case Nil
  show ?case by (simp add: alert_step_refl)
next
  case (Cons m ms)
  show ?case
    using Cons.IH[of "handle_message cfg now m s"] handle_message_step[of s cfg now m]
    by (auto simp: alert_step_refl intro: alert_step_trans)
qed

lemma drain_rest: "set (snd (drain cfg now msgs s)) \<subseteq> set msgs"
  by (induction msgs arbitrary: s) auto

lemma drain_all: "[] \<notin> set msgs \<Longrightarrow>
   drain cfg now msgs s = (foldl (\<lambda>a m. handle_message cfg now m a) s msgs, [])"
  by (induction msgs arbitrary: s) auto

section \<open>The steps of a pass\<close>

lemma handle_message_epoch:
  "handle_message cfg now m (s\<lparr>state_epoch := e\<rparr>) = (handle_message cfg now m s)\<lparr>state_epoch := e\<rparr>"
  by (simp add: handle_message_def try_message_def trigger_alert_def Let_def
        split: option.splits)

lemma drain_epoch:
  "drain cfg now ms (s\<lparr>state_epoch := e\<rparr>) =
     ((fst (drain cfg now ms s))\<lparr>state_epoch := e\<rparr>, snd (drain cfg now ms s))"
  by (induction ms arbitrary: s) (simp_all add: handle_message_epoch)

lemma process_messages_epoch:
  "process_messages cfg now (s\<lparr>state_epoch := e\<rparr>) = (process_messages cfg now s)\<lparr>state_epoch := e\<rparr>"
  by (simp add: process_messages_def drain_epoch split_beta)

lemma process_messages_shape:
  "\<exists>sus l al lg nbs ib. process_messages cfg now s =
       s\<lparr>suspicion_triggered := sus, led := l, alerts := al, clone_check_log := lg,
         state_neighbors := nbs, inbox := ib\<rparr>"
proof -
  obtain sus l al lg nbs where "fst (drain cfg now (inbox s) s) =
       s\<lparr>suspicion_triggered := sus, led := l, alerts := al, clone_check_log := lg,
         state_neighbors := nbs\<rparr>"
    using drain_shape by blast
  then have "process_messages cfg now s =
       s\<lparr>suspicion_triggered := sus, led := l, alerts := al, clone_check_log := lg,
         state_neighbors := nbs, inbox := snd (drain cfg now (inbox s) s)\<rparr>"
    by (simp add: process_messages_def split_beta)
  then show ?thesis by blast
qed

lemma process_messages_frame:
  "state_x (process_messages cfg now s) = state_x s"
  "state_status (process_messages cfg now s) = state_status s"
  "state_epoch (process_messages cfg now s) = state_epoch s"
  "state_convergence_count (process_messages cfg now s) = state_convergence_count s"
  "current_q_index (process_messages cfg now s) = current_q_index s"
  "state_a_i (process_messages cfg now s) = state_a_i s"
  "state_previous_neighbors (process_messages cfg now s) = state_previous_neighbors s"
  "node_name (process_messages cfg now s) = node_name s"
  "region (process_messages cfg now s) = region s"
  "peers (process_messages cfg now s) = peers s"
  using process_messages_shape[of cfg now s] by auto

lemma process_messages_step: "alert_step s (process_messages cfg now s)"
  using drain_step[of s cfg now "inbox s"]
  by (auto simp: process_messages_def split_beta alert_step_def split: if_splits)

lemma process_messages_fold:
  "[] \<notin> set (inbox s) \<Longrightarrow>
     process_messages cfg now s =
       (foldl (\<lambda>a m. handle_message cfg now m a) s (inbox s))\<lparr>inbox := []\<rparr>"
  by (simp add: process_messages_def drain_all)

lemma handle_disturbance_frame:
  assumes "handle_disturbance cfg s = Inr s'"
  shows "suspicion_triggered s' = suspicion_triggered s" "alerts s' = alerts s"
    "clone_check_log s' = clone_check_log s" "state_neighbors s' = state_neighbors s"
    "inbox s' = inbox s" "state_previous_neighbors s' = state_previous_neighbors s"
    "state_epoch s' = state_epoch s + 1" "state_status s' = DISTURBED"
    "state_convergence_count s' = 0" "node_name s' = node_name s" "region s' = region s"
    "peers s' = peers s"
  using handle_disturbance_shape[OF assms] by auto

lemma converge_state_frame:
  assumes "converge_state cfg s = Inr s'"
  shows "suspicion_triggered s' = suspicion_triggered s" "alerts s' = alerts s"
    "clone_check_log s' = clone_check_log s" "state_neighbors s' = state_neighbors s"
    "inbox s' = inbox s" "state_previous_neighbors s' = state_previous_neighbors s"
    "state_epoch s' = state_epoch s + 1" "node_name s' = node_name s" "region s' = region s"
    "peers s' = peers s"
  using converge_state_shape[OF assms] by auto

lemma tick_tail_frame:
  assumes "tick_tail cfg now s = Inr s'"
  shows "state_x s' = state_x s" "state_status s' = state_status s"
    "state_epoch s' = state_epoch s" "state_convergence_count s' = state_convergence_count s"
    "current_q_index s' = current_q_index s" "state_a_i s' = state_a_i s"
    "clone_check_log s' = clone_check_log s" "inbox s' = inbox s"
    "state_previous_neighbors s' = state_previous_neighbors s"
    "set (state_neighbors s') \<subseteq> set (state_neighbors s)" "alert_step s s'"
    "node_name s' = node_name s" "region s' = region s" "peers s' = peers s"
  using tick_tail_shape[OF assms] by auto

text \<open>
  A pass of a node that starts \<open>STABLE\<close>, by what the neighbour table holds after the
  messages: the same identities as before, fewer, or a new one.
\<close>

lemma tick_stable_eq:
  assumes "state_status s = STABLE"
  shows "tick cfg now s =
     (let s1 = process_messages cfg now (s\<lparr>state_epoch := state_epoch s + 1\<rparr>);
          cur = dict_keys (state_neighbors s1)
      in if cur = state_previous_neighbors s then tick_tail cfg now s1
         else if cur \<subseteq> state_previous_neighbors s then
           (case handle_disturbance cfg (s1\<lparr>state_previous_neighbors := cur\<rparr>) of
              Inl e \<Rightarrow> Inl e
            | Inr s3 \<Rightarrow> tick_tail cfg now s3)
         else
           (case handle_disturbance cfg s1 of
              Inl e \<Rightarrow> Inl e
            | Inr s2 \<Rightarrow>
               (case handle_disturbance cfg (s2\<lparr>state_previous_neighbors := cur\<rparr>) of
                  Inl e \<Rightarrow> Inl e
                | Inr s3 \<Rightarrow> tick_tail cfg now s3)))"
proof -
  let ?s1 = "process_messages cfg now (s\<lparr>state_epoch := state_epoch s + 1\<rparr>)"
  have p: "state_previous_neighbors ?s1 = state_previous_neighbors s"
    by (simp add: process_messages_frame)
  have a: "dict_keys (state_neighbors ?s1) - state_previous_neighbors s \<noteq> {} \<longleftrightarrow>
           \<not> dict_keys (state_neighbors ?s1) \<subseteq> state_previous_neighbors s"
    by auto
  show ?thesis
    unfolding tick_eq using assms
    by (simp add: check_topology_change_def Let_def p a split: sum.splits)
qed

lemma tick_disturbed_eq:
  assumes "state_status s = DISTURBED"
  shows "tick cfg now s =
     (case converge_state cfg (s\<lparr>state_epoch := state_epoch s + 1\<rparr>) of
        Inl e \<Rightarrow> Inl e
      | Inr s3 \<Rightarrow> tick_tail cfg now s3)"
  unfolding tick_eq using assms by simp


text \<open>The four ways through a pass that returns.\<close>

lemma tick_cases:
  assumes "tick cfg now s = Inr s'"
  obtains
    (quiet) s1 where "state_status s = STABLE"
      "s1 = process_messages cfg now (s\<lparr>state_epoch := state_epoch s + 1\<rparr>)"
      "dict_keys (state_neighbors s1) = state_previous_neighbors s"
      "tick_tail cfg now s1 = Inr s'"
  | (vanished) s1 s3 where "state_status s = STABLE"
      "s1 = process_messages cfg now (s\<lparr>state_epoch := state_epoch s + 1\<rparr>)"
      "dict_keys (state_neighbors s1) \<noteq> state_previous_neighbors s"
      "dict_keys (state_neighbors s1) \<subseteq> state_previous_neighbors s"
      "handle_disturbance cfg
         (s1\<lparr>state_previous_neighbors := dict_keys (state_neighbors s1)\<rparr>) = Inr s3"
      "tick_tail cfg now s3 = Inr s'"
  | (appeared) s1 s2 s3 where "state_status s = STABLE"
      "s1 = process_messages cfg now (s\<lparr>state_epoch := state_epoch s + 1\<rparr>)"
      "\<not> dict_keys (state_neighbors s1) \<subseteq> state_previous_neighbors s"
      "handle_disturbance cfg s1 = Inr s2"
      "handle_disturbance cfg
         (s2\<lparr>state_previous_neighbors := dict_keys (state_neighbors s1)\<rparr>) = Inr s3"
      "tick_tail cfg now s3 = Inr s'"
  | (converging) s3 where "state_status s = DISTURBED"
      "converge_state cfg (s\<lparr>state_epoch := state_epoch s + 1\<rparr>) = Inr s3"
      "tick_tail cfg now s3 = Inr s'"
proof (cases "state_status s")
  case DISTURBED
  with assms obtain s3 where "converge_state cfg (s\<lparr>state_epoch := state_epoch s + 1\<rparr>) = Inr s3"
    "tick_tail cfg now s3 = Inr s'"
    by (auto simp: tick_disturbed_eq split: sum.splits)
  with DISTURBED show ?thesis by (rule converging)
next
  case STABLE
  define s1 where "s1 = process_messages cfg now (s\<lparr>state_epoch := state_epoch s + 1\<rparr>)"
  note eq = assms[unfolded tick_stable_eq[OF STABLE] Let_def, folded s1_def]
  show ?thesis
  proof (cases "dict_keys (state_neighbors s1) = state_previous_neighbors s")
    case True
    with eq have "tick_tail cfg now s1 = Inr s'" by simp
    with STABLE s1_def True show ?thesis by (rule quiet)
  next
    case ne: False
    show ?thesis
    proof (cases "dict_keys (state_neighbors s1) \<subseteq> state_previous_neighbors s")
      case True
      with eq ne obtain s3 where "handle_disturbance cfg
         (s1\<lparr>state_previous_neighbors := dict_keys (state_neighbors s1)\<rparr>) = Inr s3"
        "tick_tail cfg now s3 = Inr s'"
        by (auto split: sum.splits)
      with STABLE s1_def ne True show ?thesis by (rule vanished)
    next
      case False
      with eq ne obtain s2 s3 where "handle_disturbance cfg s1 = Inr s2"
        "handle_disturbance cfg
         (s2\<lparr>state_previous_neighbors := dict_keys (state_neighbors s1)\<rparr>) = Inr s3"
        "tick_tail cfg now s3 = Inr s'"
        by (auto split: sum.splits)
      with STABLE s1_def False show ?thesis by (rule appeared)
    qed
  qed
qed


section \<open>The alert latch and the clone log over a run\<close>

lemma epoch_upd_step: "alert_step s (s\<lparr>state_epoch := e\<rparr>)"
  by (simp add: alert_step_def)

lemma process_messages_epoch_step:
  "alert_step s (process_messages cfg now (s\<lparr>state_epoch := e\<rparr>))"
  using process_messages_step[of s cfg now]
  by (auto simp: process_messages_epoch alert_step_def split: if_splits)

lemma handle_disturbance_step: "handle_disturbance cfg s = Inr s' \<Longrightarrow> alert_step s s'"
  by (simp add: alert_step_cong handle_disturbance_frame)

lemma converge_state_step: "converge_state cfg s = Inr s' \<Longrightarrow> alert_step s s'"
  by (simp add: alert_step_cong converge_state_frame)

lemma tick_step:
  assumes "tick cfg now s = Inr s'"
  shows "alert_step s s'"
  using assms
proof (cases rule: tick_cases)
  case (quiet s1)
  have "alert_step s s1"
    unfolding quiet(2)
    by (rule process_messages_epoch_step)
  with tick_tail_frame(11)[OF quiet(4)] show ?thesis by (rule alert_step_trans[rotated])
next
  case (vanished s1 s3)
  have a: "alert_step s s1"
    unfolding vanished(2)
    by (rule process_messages_epoch_step)
  have "alert_step s1 s3"
    using handle_disturbance_frame(1,2)[OF vanished(5)] by (simp add: alert_step_def)
  with a have "alert_step s s3" by (rule alert_step_trans)
  with tick_tail_frame(11)[OF vanished(6)] show ?thesis by (rule alert_step_trans[rotated])
next
  case (appeared s1 s2 s3)
  have a: "alert_step s s1"
    unfolding appeared(2)
    by (rule process_messages_epoch_step)
  have "alert_step s1 s2" using appeared(4) by (rule handle_disturbance_step)
  with a have b: "alert_step s s2" by (rule alert_step_trans)
  have "alert_step s2 s3"
    using handle_disturbance_frame(1,2)[OF appeared(5)] by (simp add: alert_step_def)
  with b have "alert_step s s3" by (rule alert_step_trans)
  with tick_tail_frame(11)[OF appeared(6)] show ?thesis by (rule alert_step_trans[rotated])
next
  case (converging s3)
  have "alert_step s s3"
    using converge_state_frame(1,2)[OF converging(2)] by (simp add: alert_step_def)
  with tick_tail_frame(11)[OF converging(3)] show ?thesis by (rule alert_step_trans[rotated])
qed

lemma run_ticks_step:
  "run_ticks cfg inputs s = Inr s' \<Longrightarrow> alert_step s s'"
proof (induction inputs arbitrary: s)
  case Nil
  then show ?case by (simp add: alert_step_refl)
next
  case (Cons i inputs)
  obtain now msgs where i: "i = (now, msgs)" by (cases i)
  from Cons.prems i obtain t where t: "tick cfg now (deliver msgs s) = Inr t"
    "run_ticks cfg inputs t = Inr s'"
    by (auto split: sum.splits)
  have "alert_step s (deliver msgs s)" by (simp add: alert_step_def deliver_def)
  moreover have "alert_step (deliver msgs s) t" using t(1) by (rule tick_step)
  moreover have "alert_step t s'" using t(2) by (rule Cons.IH)
  ultimately show ?case by (blast intro: alert_step_trans)
qed

lemma init_latched: "init cfg addable name = Inr s \<Longrightarrow> latched s"
  by (auto simp: init_def latched_def split: option.splits list.splits sum.splits)

lemma tick_log_kept:
  assumes "tick cfg now s = Inr s'" and k: "clone_check_log s k = Some w"
  shows "clone_check_log s' k = Some w"
proof -
  have p: "clone_check_log (process_messages cfg now (s\<lparr>state_epoch := state_epoch s + 1\<rparr>)) k
             = Some w"
    using k by (simp add: process_messages_log_kept)
  from assms(1) show ?thesis
  proof (cases rule: tick_cases)
    case (quiet s1)
    with p tick_tail_frame(7)[OF quiet(4)] show ?thesis by simp
  next
    case (vanished s1 s3)
    with p handle_disturbance_frame(3)[OF vanished(5)] tick_tail_frame(7)[OF vanished(6)]
    show ?thesis by simp
  next
    case (appeared s1 s2 s3)
    with p handle_disturbance_frame(3)[OF appeared(4)]
      handle_disturbance_frame(3)[OF appeared(5)] tick_tail_frame(7)[OF appeared(6)]
    show ?thesis by simp
  next
    case (converging s3)
    with k converge_state_frame(3)[OF converging(2)] tick_tail_frame(7)[OF converging(3)]
    show ?thesis by simp
  qed
qed

lemma run_ticks_log_kept:
  "run_ticks cfg inputs s = Inr s' \<Longrightarrow> clone_check_log s k = Some w \<Longrightarrow>
     clone_check_log s' k = Some w"
proof (induction inputs arbitrary: s)
  case Nil
  then show ?case by simp
next
  case (Cons i inputs)
  obtain now msgs where i: "i = (now, msgs)" by (cases i)
  from Cons.prems i obtain t where t: "tick cfg now (deliver msgs s) = Inr t"
    "run_ticks cfg inputs t = Inr s'"
    by (auto split: sum.splits)
  have "clone_check_log (deliver msgs s) k = Some w"
    using Cons.prems(2) by (simp add: deliver_def)
  with t(1) have "clone_check_log t k = Some w" by (rule tick_log_kept)
  with t(2) show ?case by (rule Cons.IH)
qed


lemmas tick_eval =
  tick_def check_topology_change_def process_messages_def handle_message_def try_message_def
  demo_float_def dec_float_def dec_unsigned_def dec_nat_def digit_of_def dec_int_def
  dict_keys_def handle_disturbance_def broadcast_state_def update_code_sequence_def
  detect_code_anomaly_def cleanup_neighbors_def ticks_diff_def trigger_alert_def Let_def
  deliver_def result_of_def program_def accept_all_def demo_eval

section \<open>Alert stickiness\<close>

text \<open>
  Claim C9. In a run of the program from \<^verbatim>\<open>__init__\<close> on, the LED sequence of
  \<^verbatim>\<open>trigger_alert\<close> (the alert sink) has run at most once at every pass boundary, and
  it has run exactly when the latch \<^verbatim>\<open>suspicion_triggered\<close> is set; once it has run,
  no later pass runs it again, whatever messages arrive and whatever either heuristic
  finds, and a call of \<^verbatim>\<open>trigger_alert\<close> with the latch set changes nothing.
\<close>

theorem alert_fires_once:
  assumes "init cfg addable name = Inr s0"
    and "run_ticks cfg inputs s0 = Inr s"
    and "run_ticks cfg later s = Inr s'"
  shows "alerts s \<le> 1 \<and> alerts s' \<le> 1 \<and> alerts s \<le> alerts s' \<and>
         (suspicion_triggered s \<longleftrightarrow> alerts s = 1) \<and>
         (alerts s = 1 \<longrightarrow> alerts s' = 1 \<and> suspicion_triggered s') \<and>
         (suspicion_triggered s \<longrightarrow> trigger_alert s = s)"
proof -
  have l0: "latched s0" using assms(1) by (rule init_latched)
  have a1: "alert_step s0 s" using assms(2) by (rule run_ticks_step)
  have a2: "alert_step s s'" using assms(3) by (rule run_ticks_step)
  have l1: "latched s" using l0 a1 by (rule alert_step_latched)
  have l2: "latched s'" using l1 a2 by (rule alert_step_latched)
  show ?thesis
    using l1 l2 a2
    by (auto simp: latched_def alert_step_def trigger_alert_def split: if_splits)
qed

text \<open>
  Node \<open>A\<close> receives, before its first pass, two messages of \<open>B\<close> for epoch 5 with the
  codes 1.00 and 1.05: Heuristic A fires and the alert count is 1. Before the second
  pass a third message of \<open>B\<close> for epoch 5 arrives with the code 1.20; the count
  stays 1. A call of \<^verbatim>\<open>trigger_alert\<close> on the state reached changes nothing.
\<close>

theorem alert_fires_once_witness:
  "\<exists>s s'.
     init demo_config accept_all ''A'' = Inr demo_node \<and>
     run_ticks demo_config
       [(0, [''NET:B:STABLE:1.00:0.5:1:5:1'', ''NET:B:STABLE:1.05:0.5:1:5:2''])] demo_node = Inr s \<and>
     run_ticks demo_config [(1000, [''NET:B:STABLE:1.20:0.5:1:5:3''])] s = Inr s' \<and>
     alerts demo_node = 0 \<and> alerts s = 1 \<and> suspicion_triggered s \<and>
     alerts s' = 1 \<and> suspicion_triggered s' \<and> trigger_alert s = s"
proof -
  have "\<exists>s s'.
     run_ticks demo_config
       [(0, [''NET:B:STABLE:1.00:0.5:1:5:1'', ''NET:B:STABLE:1.05:0.5:1:5:2''])] demo_node = Inr s \<and>
     run_ticks demo_config [(1000, [''NET:B:STABLE:1.20:0.5:1:5:3''])] s = Inr s' \<and>
     alerts s = 1"
    by (simp add: tick_eval)
  then obtain s s' where r:
    "run_ticks demo_config
       [(0, [''NET:B:STABLE:1.00:0.5:1:5:1'', ''NET:B:STABLE:1.05:0.5:1:5:2''])] demo_node = Inr s"
    "run_ticks demo_config [(1000, [''NET:B:STABLE:1.20:0.5:1:5:3''])] s = Inr s'"
    "alerts s = 1"
    by blast
  from alert_fires_once[OF init_demo r(1) r(2)] r(3)
  have "suspicion_triggered s \<and> alerts s' = 1 \<and> suspicion_triggered s' \<and> trigger_alert s = s"
    by simp
  moreover have "alerts demo_node = 0" by (simp add: demo_node_def)
  ultimately show ?thesis using r init_demo by blast
qed

end
